theory Spec2Isabelle
  imports Complex_Main
begin

section \<open>The pagination component of ng-bootstrap\<close>

text \<open>
  A shallow embedding of the class \<open>NgbPagination\<close> of
  \<^verbatim>\<open>src/pagination/pagination.ts\<close>: the recompute \<open>ngOnChanges\<close>, the navigation
  request \<open>selectPage\<close> and the private helpers that choose the window of page numbers
  and add the ellipsis entries.

  The inputs \<open>collectionSize\<close>, \<open>pageSize\<close>, \<open>maxSize\<close> and \<open>page\<close> are
  integer-valued numbers, modelled as \<open>int\<close>. JavaScript computes with doubles, which
  are exact on integers of magnitude below \<open>2 ^ 53\<close>; on such operands
  \<^verbatim>\<open>Math.ceil(a / b)\<close> with \<open>b \<noteq> 0\<close> is the exact ceiling of the quotient and
  \<^verbatim>\<open>Math.floor(a / 2)\<close> its exact floor. Arrays are taken to be unbounded.
\<close>

subsection \<open>Numbers that need not be finite\<close>

text \<open>
  Division by zero does not raise in JavaScript: \<^verbatim>\<open>a / 0\<close> is \<open>Infinity\<close>,
  \<open>-Infinity\<close> or \<open>NaN\<close>, and \<^verbatim>\<open>Math.ceil\<close> leaves these three values as they
  are. The page count is the result of such a division, so the private field
  \<open>_pageCount\<close> holds a \<open>jsnum\<close>.
\<close>

datatype jsnum = Fin int | PosInf | NegInf | NaN

text \<open>\<^verbatim>\<open>Math.ceil(a / b)\<close> for integers \<open>a\<close> and \<open>b\<close>.\<close>

definition js_ceil_div :: "int \<Rightarrow> int \<Rightarrow> jsnum" where
  "js_ceil_div a b =
     (if b = 0 then (if 0 < a then PosInf else if a < 0 then NegInf else NaN)
      else Fin (- ((- a) div b)))"

text \<open>The comparisons \<^verbatim>\<open><=\<close> and \<^verbatim>\<open><\<close>: every comparison with \<open>NaN\<close> is false.\<close>

fun js_le :: "jsnum \<Rightarrow> jsnum \<Rightarrow> bool" where
  "js_le NaN _ = False"
| "js_le _ NaN = False"
| "js_le NegInf _ = True"
| "js_le _ PosInf = True"
| "js_le (Fin a) (Fin b) = (a \<le> b)"
| "js_le PosInf _ = False"
| "js_le _ NegInf = False"

fun js_lt :: "jsnum \<Rightarrow> jsnum \<Rightarrow> bool" where
  "js_lt NaN _ = False"
| "js_lt _ NaN = False"
| "js_lt PosInf _ = False"
| "js_lt _ NegInf = False"
| "js_lt (Fin a) (Fin b) = (a < b)"
| "js_lt NegInf _ = True"
| "js_lt _ PosInf = True"

text \<open>
  \<^verbatim>\<open>Math.ceil(a / b)\<close> where the divisor is known not to be zero (the call in
  \<open>_applyPagination\<close>, reached only behind the guard \<^verbatim>\<open>this.maxSize > 0\<close>).
\<close>

definition ceil_div :: "int \<Rightarrow> int \<Rightarrow> int" where
  "ceil_div a b = - ((- a) div b)"

text \<open>The remainder \<^verbatim>\<open>a % b\<close>, which takes the sign of the dividend.\<close>

definition js_rem :: "int \<Rightarrow> int \<Rightarrow> int" where
  "js_rem a b = sgn a * (\<bar>a\<bar> mod \<bar>b\<bar>)"

text \<open>
  \<^verbatim>\<open>Array.prototype.slice(start, end)\<close>: a negative bound counts from the end of the
  array, and both bounds are cut to the array.
\<close>

definition js_slice :: "'a list \<Rightarrow> int \<Rightarrow> int \<Rightarrow> 'a list" where
  "js_slice xs start end =
     (let len = int (length xs);
          k = (if start < 0 then max (len + start) 0 else min start len);
          final = (if end < 0 then max (len + end) 0 else min end len)
      in take (nat (final - k)) (drop (nat k) xs))"

subsection \<open>The component\<close>

text \<open>
  The fields the methods read or write. \<open>pageChange\<close> is the event emitter, kept as the
  list of the payloads emitted so far, oldest first. The inputs \<open>boundaryLinks\<close>,
  \<open>directionLinks\<close> and \<open>size\<close> are read by the template only and are left out.
\<close>

record NgbPagination =
  pageCount :: jsnum
  pages :: "int list"
  ellipses :: bool
  rotate_flag :: bool
  collectionSize :: int
  maxSize :: int
  page :: int
  pageSize :: int
  pageChange :: "int list"

text \<open>
  Modelled from the spec: \<open>getValueInRange\<close> of \<^verbatim>\<open>src/util/util.ts\<close> is imported by
  the component and is not among the sources. Section 4.1 of the specification gives its
  contract: it returns \<open>minPage\<close> if \<open>pageCount \<le> 0\<close> or \<open>requested < minPage\<close>,
  returns \<open>pageCount\<close> if \<open>requested > pageCount\<close>, and otherwise returns
  \<open>requested\<close> unchanged. The comparisons with a page count that is not finite are
  those of JavaScript.
\<close>

definition getValueInRange :: "int \<Rightarrow> jsnum \<Rightarrow> int \<Rightarrow> int" where
  "getValueInRange requested pageCount' minPage =
     (if js_le pageCount' (Fin 0) \<or> requested < minPage then minPage
      else (case pageCount' of
              Fin n \<Rightarrow> if n < requested then n else requested
            | _ \<Rightarrow> requested))"

definition getPageNoInRange :: "NgbPagination \<Rightarrow> int \<Rightarrow> int" where
  "getPageNoInRange this newPageNo = getValueInRange newPageNo (pageCount this) 1"

definition isEllipsis :: "int \<Rightarrow> bool" where
  "isEllipsis pageNumber = (pageNumber = -1)"

definition hasPrevious :: "NgbPagination \<Rightarrow> bool" where
  "hasPrevious this = (1 < page this)"

definition hasNext :: "NgbPagination \<Rightarrow> bool" where
  "hasNext this = js_lt (Fin (page this)) (pageCount this)"

subsection \<open>The window and the ellipses\<close>

text \<open>
  The three private helpers run only inside the branch of \<open>ngOnChanges\<close> guarded by
  \<^verbatim>\<open>this.maxSize > 0 && this._pageCount > this.maxSize\<close>, where the page count is a
  finite integer; they take it, the current page and \<open>maxSize\<close> as arguments.
\<close>

definition applyRotation :: "int \<Rightarrow> int \<Rightarrow> int \<Rightarrow> int \<times> int" where
  "applyRotation pageCount' page' maxSize' =
     (let leftOffset = maxSize' div 2;
          rightOffset = (if js_rem maxSize' 2 = 0 then leftOffset - 1 else leftOffset)
      in if page' \<le> leftOffset then (0, maxSize')
         else if pageCount' - page' < leftOffset then (pageCount' - maxSize', pageCount')
         else (page' - leftOffset - 1, page' + rightOffset))"

definition applyPagination :: "int \<Rightarrow> int \<Rightarrow> int \<times> int" where
  "applyPagination page' maxSize' =
     (let block = ceil_div page' maxSize' - 1;
          start = block * maxSize';
          end = start + maxSize'
      in (start, end))"

text \<open>\<open>unshift\<close> puts an entry in front of the array, \<open>push\<close> behind it.\<close>

definition applyEllipses :: "bool \<Rightarrow> int \<Rightarrow> int list \<Rightarrow> int \<Rightarrow> int \<Rightarrow> int list" where
  "applyEllipses ellipses' pageCount' pages' start end =
     (if ellipses' then
        (let pages1 = (if 0 < start then 1 # (-1) # pages' else pages')
         in if end < pageCount' then (pages1 @ [-1]) @ [pageCount'] else pages1)
      else pages')"

subsection \<open>The recompute and the navigation request\<close>

text \<open>
  The loop \<^verbatim>\<open>for (let i = 1; i <= this._pageCount; i++) this.pages.push(i)\<close>. With
  the bound \<open>Infinity\<close> its condition never fails and the call never returns a
  result (an engine ends it when memory or the array length is exhausted); \<open>None\<close>
  stands for that.
\<close>

partial_function (option) fill_pages :: "jsnum \<Rightarrow> int \<Rightarrow> int list \<Rightarrow> int list option" where
  "fill_pages bound i ps =
     (if js_le (Fin i) bound then fill_pages bound (i + 1) (ps @ [i]) else Some ps)"

declare fill_pages.simps [code]

text \<open>
  The branch taken when \<open>maxSize\<close> applies: choose the window by one of the two
  strategies, cut the array to it and add the ellipses.
\<close>

definition applyMaxSize :: "NgbPagination \<Rightarrow> int \<Rightarrow> NgbPagination" where
  "applyMaxSize this n =
     (let (start, end) = (if rotate_flag this then applyRotation n (page this) (maxSize this)
                          else applyPagination (page this) (maxSize this));
          sliced = js_slice (pages this) start end
      in this\<lparr>pages := applyEllipses (ellipses this) n sliced start end\<rparr>)"

text \<open>
  \<open>ngOnChanges\<close>. The guard \<^verbatim>\<open>this._pageCount > this.maxSize\<close> is false for
  \<open>NaN\<close> and \<open>-Infinity\<close>, and with \<open>Infinity\<close> the loop before it has not returned,
  so the guarded branch sees finite page counts only.
\<close>

definition ngOnChanges :: "NgbPagination \<Rightarrow> NgbPagination option" where
  "ngOnChanges this =
     (let pc = js_ceil_div (collectionSize this) (pageSize this)
      in case fill_pages pc 1 [] of
           None \<Rightarrow> None
         | Some ps \<Rightarrow>
             (let this1 = this\<lparr>pageCount := pc, pages := ps\<rparr>;
                  this2 = this1\<lparr>page := getPageNoInRange this1 (page this1)\<rparr>
              in Some (case pc of
                         Fin n \<Rightarrow> if 0 < maxSize this2 \<and> maxSize this2 < n
                                  then applyMaxSize this2 n else this2
                       | _ \<Rightarrow> this2)))"


text \<open>
  The state \<open>ngOnChanges\<close> returns when the page count is the finite integer \<open>n\<close>
  (lemma \<open>ngOnChanges_nonzero\<close> below): the loop has filled the array with the pages
  1 to \<open>n\<close>.
\<close>

definition recomputed :: "NgbPagination \<Rightarrow> int \<Rightarrow> NgbPagination" where
  "recomputed this n =
     (let this2 = this\<lparr>pageCount := Fin n, pages := [1..n],
                       page := getValueInRange (page this) (Fin n) 1\<rparr>
      in if 0 < maxSize this \<and> maxSize this < n then applyMaxSize this2 n else this2)"

subsection \<open>The loop that fills the array\<close>

lemma fill_pages_Fin: "fill_pages (Fin n) i ps = Some (ps @ [i..n])"
proof (induction "nat (n + 1 - i)" arbitrary: i ps)
  case 0
  then have "\<not> i \<le> n" by simp
  then show ?case by (subst fill_pages.simps) simp
next
  case (Suc k)
  then have le: "i \<le> n" and k: "k = nat (n + 1 - (i + 1))" by simp_all
  from Suc.hyps(1) [OF k] le show ?case
    by (subst fill_pages.simps) (simp add: upto_rec1 [of i n])
qed

lemma fill_pages_returns_finite_bound:
  "fill_pages bound i ps = Some r \<Longrightarrow> bound \<noteq> PosInf"
proof (rule fill_pages.raw_induct [where P = "\<lambda>b _ _ _. b \<noteq> PosInf"])
  show "fill_pages bound i ps = Some r \<Longrightarrow> fill_pages bound i ps = Some r" .
next
  fix f b j qs y
  assume IH: "\<And>b j qs y. f b j qs = Some y \<Longrightarrow> b \<noteq> PosInf"
    and step: "(if js_le (Fin j) b then f b (j + 1) (qs @ [j]) else Some qs) = Some y"
  show "b \<noteq> PosInf"
  proof
    assume "b = PosInf"
    with step have "f PosInf (j + 1) (qs @ [j]) = Some y" by simp
    from IH [OF this] show False by simp
  qed
qed

lemma fill_pages_PosInf: "fill_pages PosInf i ps = None"
  using fill_pages_returns_finite_bound [of PosInf i ps]
  by (cases "fill_pages PosInf i ps") auto

lemma fill_pages_NaN: "fill_pages NaN i ps = Some ps"
  by (subst fill_pages.simps) simp

lemma fill_pages_NegInf: "fill_pages NegInf i ps = Some ps"
  by (subst fill_pages.simps) simp

subsection \<open>The recompute in closed form\<close>

lemma js_ceil_div_nonzero: "b \<noteq> 0 \<Longrightarrow> js_ceil_div a b = Fin (ceil_div a b)"
  by (simp add: js_ceil_div_def ceil_div_def)

lemma ceil_div_ceiling: "ceil_div a b = \<lceil>real_of_int a / real_of_int b\<rceil>"
  by (simp add: ceil_div_def ceiling_divide_eq_div)

lemma ceil_div_nonneg: "0 \<le> a \<Longrightarrow> 0 < b \<Longrightarrow> 0 \<le> ceil_div a b"
  using div_nonpos_pos_le0 [of "- a" b] by (simp add: ceil_div_def)

lemma ceil_div_eq_0_iff: "0 \<le> a \<Longrightarrow> 0 < b \<Longrightarrow> ceil_div a b = 0 \<longleftrightarrow> a = 0"
proof
  assume a: "0 \<le> a" and b: "0 < b" and z: "ceil_div a b = 0"
  from z have "\<lceil>real_of_int a / real_of_int b\<rceil> = 0" by (simp add: ceil_div_ceiling)
  then have "real_of_int a / real_of_int b \<le> 0" by (simp add: ceiling_eq_iff)
  with b have "real_of_int a \<le> 0" by (simp add: divide_le_0_iff)
  with a show "a = 0" by simp
next
  assume "a = 0"
  then show "ceil_div a b = 0" by (simp add: ceil_div_def)
qed

lemma ngOnChanges_nonzero:
  assumes "pageSize this \<noteq> 0"
  shows "ngOnChanges this =
           Some (recomputed this (ceil_div (collectionSize this) (pageSize this)))"
  using assms
  by (simp add: ngOnChanges_def js_ceil_div_nonzero fill_pages_Fin recomputed_def
      getPageNoInRange_def Let_def)


subsection \<open>The page count\<close>

text \<open>
  Claim C7. For every collection size \<open>\<ge> 0\<close> and page size \<open>> 0\<close> the recompute
  returns, the page count it stores is the ceiling of the quotient of the two, and that
  page count is 0 exactly when the collection is empty.
\<close>

theorem pageCount_is_ceiling:
  assumes "0 \<le> collectionSize this" and "0 < pageSize this"
  shows "\<exists>this'. ngOnChanges this = Some this'
           \<and> pageCount this'
               = Fin \<lceil>real_of_int (collectionSize this) / real_of_int (pageSize this)\<rceil>
           \<and> (pageCount this' = Fin 0 \<longleftrightarrow> collectionSize this = 0)"
proof -
  let ?n = "ceil_div (collectionSize this) (pageSize this)"
  from assms have run: "ngOnChanges this = Some (recomputed this ?n)"
    by (simp add: ngOnChanges_nonzero)
  have pc: "pageCount (recomputed this ?n) = Fin ?n"
    by (simp add: recomputed_def applyMaxSize_def Let_def split: prod.split)
  from assms have zero: "?n = 0 \<longleftrightarrow> collectionSize this = 0"
    by (rule ceil_div_eq_0_iff)
  from run pc zero show ?thesis
    by (simp add: ceil_div_ceiling [symmetric])
qed

theorem pageCount_is_ceiling_witness:
  "map_option pageCount
     (ngOnChanges \<lparr>pageCount = Fin 0, pages = [], ellipses = True, rotate_flag = False,
        collectionSize = 95, maxSize = 0, page = 0, pageSize = 10, pageChange = []\<rparr>)
   = Some (Fin 10)"
  using pageCount_is_ceiling
    [of "\<lparr>pageCount = Fin 0, pages = [], ellipses = True, rotate_flag = False,
        collectionSize = 95, maxSize = 0, page = 0, pageSize = 10, pageChange = []\<rparr>"]
  by auto

subsection \<open>The range clamp\<close>

text \<open>
  Claim C8. For every page count \<open>\<ge> 0\<close> and every requested integer the clamp returns
  a value between 1 and the larger of the page count and 1: it is 1 when the page count
  is at most 0 or the request is below 1, the page count when the request exceeds a page
  count of at least 1, and the request itself when that lies between 1 and the page
  count.
\<close>

theorem getPageNoInRange_clamps:
  assumes "pageCount this = Fin n" and "0 \<le> n"
  shows "1 \<le> getPageNoInRange this requested
       \<and> getPageNoInRange this requested \<le> max n 1
       \<and> (n \<le> 0 \<or> requested < 1 \<longrightarrow> getPageNoInRange this requested = 1)
       \<and> (1 \<le> n \<and> n < requested \<longrightarrow> getPageNoInRange this requested = n)
       \<and> (1 \<le> requested \<and> requested \<le> n \<longrightarrow> getPageNoInRange this requested = requested)"
  using assms by (auto simp add: getPageNoInRange_def getValueInRange_def)

theorem getPageNoInRange_clamps_witness:
  "getPageNoInRange \<lparr>pageCount = Fin 7, pages = [], ellipses = True, rotate_flag = False,
        collectionSize = 70, maxSize = 0, page = 1, pageSize = 10, pageChange = []\<rparr> 9 = 7
   \<and> getPageNoInRange \<lparr>pageCount = Fin 7, pages = [], ellipses = True, rotate_flag = False,
        collectionSize = 70, maxSize = 0, page = 1, pageSize = 10, pageChange = []\<rparr> 0 = 1
   \<and> getPageNoInRange \<lparr>pageCount = Fin 7, pages = [], ellipses = True, rotate_flag = False,
        collectionSize = 70, maxSize = 0, page = 1, pageSize = 10, pageChange = []\<rparr> 4 = 4
   \<and> getPageNoInRange \<lparr>pageCount = Fin 0, pages = [], ellipses = True, rotate_flag = False,
        collectionSize = 0, maxSize = 0, page = 1, pageSize = 10, pageChange = []\<rparr> 5 = 1"
proof -
  let ?c = "\<lparr>pageCount = Fin 7, pages = [], ellipses = True, rotate_flag = False,
        collectionSize = 70, maxSize = 0, page = 1, pageSize = 10, pageChange = []\<rparr>"
  let ?d = "\<lparr>pageCount = Fin 0, pages = [], ellipses = True, rotate_flag = False,
        collectionSize = 0, maxSize = 0, page = 1, pageSize = 10, pageChange = []\<rparr>"
  have above: "getPageNoInRange ?c 9 = 7"
    using getPageNoInRange_clamps [of ?c 7 9] by simp
  have below: "getPageNoInRange ?c 0 = 1"
    using getPageNoInRange_clamps [of ?c 7 0] by simp
  have inside: "getPageNoInRange ?c 4 = 4"
    using getPageNoInRange_clamps [of ?c 7 4] by simp
  have no_pages: "getPageNoInRange ?d 5 = 1"
    using getPageNoInRange_clamps [of ?d 0 5] by simp
  from above below inside no_pages show ?thesis by (simp only: simp_thms)
qed

subsection \<open>The rotation strategy\<close>

lemma js_rem_2_even: "js_rem m 2 = 0 \<longleftrightarrow> even m"
  by (cases "m = 0") (auto simp add: js_rem_def sgn_if even_iff_mod_2_eq_zero abs_if)

lemma upto_drop: "0 \<le> k \<Longrightarrow> drop (nat k) [a..b] = [a + k..b]"
  by (rule nth_equalityI) (auto simp add: nth_upto)

lemma upto_take:
  assumes "0 \<le> j"
  shows "take (nat j) [a..b] = [a..min (a + j - 1) b]"
proof (rule nth_equalityI)
  from assms show "length (take (nat j) [a..b]) = length [a..min (a + j - 1) b]"
    by simp
next
  fix i
  assume "i < length (take (nat j) [a..b])"
  then have "i < nat (b - a + 1)" and "i < nat j" by simp_all
  then have i: "int i < j" "a + int i \<le> b" by linarith+
  then have "a + int i \<le> min (a + j - 1) b" by simp
  with i show "take (nat j) [a..b] ! i = [a..min (a + j - 1) b] ! i"
    by (simp add: nth_upto)
qed

lemma js_slice_upto:
  assumes "0 \<le> n" and "0 \<le> start" and "start \<le> end"
  shows "js_slice [1..n] start end = [start + 1..min end n]"
proof -
  from assms have "js_slice [1..n] start end
      = take (nat (min end n - min start n)) (drop (nat (min start n)) [1..n])"
    by (simp add: js_slice_def Let_def)
  also from assms have "\<dots> = [1 + min start n..min (1 + min start n + (min end n - min start n) - 1) n]"
    by (simp add: upto_drop upto_take)
  also from assms have "\<dots> = [start + 1..min end n]"
    by (cases "start \<le> n") (simp_all add: min_def add.commute)
  finally show ?thesis .
qed

text \<open>
  Claim C2. For \<open>0 < maxSize < pageCount\<close> and a current page between 1 and the page
  count, the rotation strategy takes \<open>leftOffset\<close> as the floor of half of \<open>maxSize\<close>
  and \<open>rightOffset\<close> as \<open>leftOffset - 1\<close> for an even \<open>maxSize\<close> and as
  \<open>leftOffset\<close> otherwise, and returns, in this order of priority, the window from 0
  to \<open>maxSize\<close> when the page is at most \<open>leftOffset\<close>, the window from
  \<open>pageCount - maxSize\<close> to \<open>pageCount\<close> when fewer than \<open>leftOffset\<close> pages
  follow the current one, and the window from \<open>page - leftOffset - 1\<close> to
  \<open>page + rightOffset\<close> otherwise. With 20 pages and \<open>maxSize = 5\<close> the window at
  page 1 holds the pages 1 to 5 and at page 20 the pages 16 to 20.
\<close>

theorem applyRotation_window:
  "(0 < m \<and> m < n \<and> 1 \<le> p \<and> p \<le> n \<longrightarrow>
      applyRotation n p m =
        (let leftOffset = \<lfloor>real_of_int m / 2\<rfloor>;
             rightOffset = (if even m then leftOffset - 1 else leftOffset)
         in if p \<le> leftOffset then (0, m)
            else if n - p < leftOffset then (n - m, n)
            else (p - leftOffset - 1, p + rightOffset)))
   \<and> applyRotation 20 1 5 = (0, 5) \<and> js_slice [1..20] 0 5 = [1, 2, 3, 4, 5]
   \<and> applyRotation 20 20 5 = (15, 20) \<and> js_slice [1..20] 15 20 = [16, 17, 18, 19, 20]"
proof -
  have floor_half: "\<lfloor>real_of_int m / 2\<rfloor> = m div 2"
    using floor_divide_of_int_eq [of m 2, where ?'a = real] by simp
  have general: "applyRotation n p m =
        (let leftOffset = \<lfloor>real_of_int m / 2\<rfloor>;
             rightOffset = (if even m then leftOffset - 1 else leftOffset)
         in if p \<le> leftOffset then (0, m)
            else if n - p < leftOffset then (n - m, n)
            else (p - leftOffset - 1, p + rightOffset))"
    by (simp add: applyRotation_def floor_half js_rem_2_even)
  have first: "applyRotation 20 1 5 = (0, 5)"
    by (simp add: applyRotation_def)
  have last: "applyRotation 20 20 5 = (15, 20)"
    by (simp add: applyRotation_def js_rem_def)
  have first_pages: "js_slice [1..20] 0 5 = [1, 2, 3, 4, 5 :: int]"
    by code_simp
  have last_pages: "js_slice [1..20] 15 20 = [16, 17, 18, 19, 20 :: int]"
    by code_simp
  from general first last first_pages last_pages show ?thesis by blast
qed

theorem applyRotation_window_witness:
  "applyRotation 20 10 5 = (7, 12) \<and> applyRotation 20 10 4 = (7, 11)"
proof -
  have five: "applyRotation 20 10 5 = (7, 12)"
    using applyRotation_window [of 5 20 10] by simp
  have four: "applyRotation 20 10 4 = (7, 11)"
    using applyRotation_window [of 4 20 10] by simp
  from five four show ?thesis by simp
qed


subsection \<open>The pagination-blocks strategy\<close>

text \<open>
  Claim C6. For \<open>0 < maxSize < pageCount\<close> and a current page between 1 and the page
  count, the pagination strategy returns the window that starts at \<open>block * maxSize\<close>
  and has \<open>maxSize\<close> places, where \<open>block\<close> is the ceiling of the quotient of the
  page and \<open>maxSize\<close>, less 1. With 10 pages, \<open>maxSize = 3\<close> and page 4 the window
  runs from 3 to 6 and holds the pages 4, 5 and 6.
\<close>

theorem applyPagination_window:
  "(0 < m \<and> m < n \<and> 1 \<le> p \<and> p \<le> n \<longrightarrow>
      applyPagination p m =
        (let block = \<lceil>real_of_int p / real_of_int m\<rceil> - 1
         in (block * m, block * m + m)))
   \<and> applyPagination 4 3 = (3, 6) \<and> js_slice [1..10] 3 6 = [4, 5, 6]"
proof -
  have general: "applyPagination p m =
        (let block = \<lceil>real_of_int p / real_of_int m\<rceil> - 1
         in (block * m, block * m + m))"
    by (simp add: applyPagination_def ceil_div_ceiling Let_def)
  have example: "applyPagination 4 3 = (3, 6)"
    by (simp add: applyPagination_def ceil_div_def)
  have example_pages: "js_slice [1..10] 3 6 = [4, 5, 6 :: int]"
    by code_simp
  from general example example_pages show ?thesis by blast
qed

theorem applyPagination_window_witness:
  "applyPagination 7 3 = (6, 9)"
  using applyPagination_window [of 3 10 7] by simp


subsection \<open>The window inside the recompute\<close>

lemma applyRotation_bounds:
  assumes "0 < m" and "m < n" and "1 \<le> p" and "p \<le> n"
    and "applyRotation n p m = (s, e)"
  shows "0 \<le> s \<and> e = s + m \<and> e \<le> n"
proof (cases "even m")
  case True
  then obtain k where "m = 2 * k" by (auto elim: evenE)
  with assms show ?thesis
    by (auto simp add: applyRotation_def js_rem_2_even Let_def split: if_splits)
next
  case False
  then obtain k where "m = 2 * k + 1" by (auto elim: oddE)
  with assms show ?thesis
    by (auto simp add: applyRotation_def js_rem_2_even Let_def split: if_splits)
qed

lemma ceil_div_pos: "1 \<le> a \<Longrightarrow> 0 < b \<Longrightarrow> 1 \<le> ceil_div a b"
  using pos_imp_zdiv_neg_iff [of b "- a"] by (simp add: ceil_div_def)

lemma applyPagination_bounds:
  assumes "0 < m" and "1 \<le> p" and "applyPagination p m = (s, e)"
  shows "0 \<le> s \<and> e = s + m"
proof -
  from assms have "0 \<le> ceil_div p m - 1" using ceil_div_pos [of p m] by simp
  with assms show ?thesis by (auto simp add: applyPagination_def Let_def)
qed

lemma getValueInRange_range:
  "0 \<le> n \<Longrightarrow> 1 \<le> getValueInRange r (Fin n) 1 \<and> getValueInRange r (Fin n) 1 \<le> max n 1"
  by (auto simp add: getValueInRange_def)

lemma getValueInRange_idem:
  "getValueInRange (getValueInRange r pc 1) pc 1 = getValueInRange r pc 1"
  by (cases pc) (auto simp add: getValueInRange_def)

lemma recomputed_plain:
  assumes "\<not> (0 < maxSize this \<and> maxSize this < n)"
  shows "recomputed this n =
           this\<lparr>pageCount := Fin n, pages := [1..n],
                page := getValueInRange (page this) (Fin n) 1\<rparr>"
  using assms by (auto simp add: recomputed_def Let_def)

lemma recomputed_window:
  assumes "0 < maxSize this" and "maxSize this < n"
    and "(if rotate_flag this
          then applyRotation n (getValueInRange (page this) (Fin n) 1) (maxSize this)
          else applyPagination (getValueInRange (page this) (Fin n) 1) (maxSize this)) = (s, e)"
  shows "recomputed this n =
           this\<lparr>pageCount := Fin n,
                pages := applyEllipses (ellipses this) n (js_slice [1..n] s e) s e,
                page := getValueInRange (page this) (Fin n) 1\<rparr>"
  using assms by (auto simp add: recomputed_def applyMaxSize_def Let_def split: if_splits)

lemma window_bounds:
  assumes "0 < m" and "m < n"
    and "(if r then applyRotation n (getValueInRange q (Fin n) 1) m
          else applyPagination (getValueInRange q (Fin n) 1) m) = (s, e)"
  shows "0 \<le> s \<and> e = s + m"
proof -
  from assms have n: "0 \<le> n" by simp
  let ?p = "getValueInRange q (Fin n) 1"
  from getValueInRange_range [OF n, of q] assms have p: "1 \<le> ?p" "?p \<le> n" by simp_all
  show ?thesis
  proof (cases r)
    case True
    with assms have "applyRotation n ?p m = (s, e)" by simp
    from applyRotation_bounds [OF assms(1,2) p this] show ?thesis by simp
  next
    case False
    with assms have "applyPagination ?p m = (s, e)" by simp
    from applyPagination_bounds [OF assms(1) p(1) this] show ?thesis .
  qed
qed

lemma applyEllipses_closed:
  "applyEllipses el n w s e =
     (if el then (if 0 < s then [1, -1] else []) @ w @ (if e < n then [-1, n] else [])
      else w)"
  by (simp add: applyEllipses_def)

lemma ngOnChanges_plain:
  assumes "0 \<le> collectionSize this" and "0 < pageSize this"
    and "n = ceil_div (collectionSize this) (pageSize this)"
    and "\<not> (0 < maxSize this \<and> maxSize this < n)"
  shows "ngOnChanges this =
           Some (this\<lparr>pageCount := Fin n, pages := [1..n],
                      page := getValueInRange (page this) (Fin n) 1\<rparr>)"
  using assms by (simp add: ngOnChanges_nonzero recomputed_plain)

lemma ngOnChanges_window:
  assumes "0 \<le> collectionSize this" and "0 < pageSize this"
    and "n = ceil_div (collectionSize this) (pageSize this)"
    and "0 < maxSize this" and "maxSize this < n"
  shows "\<exists>s e. 0 \<le> s \<and> e = s + maxSize this
           \<and> (if rotate_flag this
               then applyRotation n (getValueInRange (page this) (Fin n) 1) (maxSize this)
               else applyPagination (getValueInRange (page this) (Fin n) 1) (maxSize this))
              = (s, e)
           \<and> ngOnChanges this =
               Some (this\<lparr>pageCount := Fin n,
                          pages := applyEllipses (ellipses this) n [s + 1..min e n] s e,
                          page := getValueInRange (page this) (Fin n) 1\<rparr>)"
proof -
  obtain s e where window: "(if rotate_flag this
               then applyRotation n (getValueInRange (page this) (Fin n) 1) (maxSize this)
               else applyPagination (getValueInRange (page this) (Fin n) 1) (maxSize this))
              = (s, e)"
    by (cases "if rotate_flag this
               then applyRotation n (getValueInRange (page this) (Fin n) 1) (maxSize this)
               else applyPagination (getValueInRange (page this) (Fin n) 1) (maxSize this)")
  from window_bounds [OF assms(4,5) window] have bounds: "0 \<le> s" "e = s + maxSize this"
    by simp_all
  from assms have n: "0 \<le> n" by simp
  from bounds assms(4) have "s \<le> e" by simp
  from js_slice_upto [OF n bounds(1) this]
  have sliced: "js_slice [1..n] s e = [s + 1..min e n]" .
  from assms(2,3) have "ngOnChanges this = Some (recomputed this n)"
    by (simp add: ngOnChanges_nonzero)
  with recomputed_window [OF assms(4,5) window] sliced bounds window
  show ?thesis by simp
qed

lemma ngOnChanges_finite:
  assumes "ngOnChanges this = Some this'" and "pageCount this' = Fin n"
  shows "pageSize this \<noteq> 0 \<and> n = ceil_div (collectionSize this) (pageSize this)
           \<and> this' = recomputed this n"
proof (cases "pageSize this = 0")
  case True
  with assms(1) have "pageCount this' = js_ceil_div (collectionSize this) 0"
    by (auto simp add: ngOnChanges_def js_ceil_div_def fill_pages_PosInf fill_pages_NegInf
        fill_pages_NaN Let_def split: if_splits)
  with assms(2) show ?thesis by (simp add: js_ceil_div_def split: if_splits)
next
  case False
  let ?c = "ceil_div (collectionSize this) (pageSize this)"
  from False assms(1) have this': "this' = recomputed this ?c"
    by (simp add: ngOnChanges_nonzero)
  have "pageCount (recomputed this ?c) = Fin ?c"
    by (simp add: recomputed_def applyMaxSize_def Let_def split: prod.split)
  with this' assms(2) have "?c = n" by simp
  with False this' show ?thesis by simp
qed

lemma applyEllipses_count:
  "int (length (filter (\<lambda>x. \<not> isEllipsis x) (applyEllipses el n w s e)))
     \<le> int (length (filter (\<lambda>x. \<not> isEllipsis x) w)) + (if el then 2 else 0)"
  by (simp add: applyEllipses_closed isEllipsis_def)

subsection \<open>The ellipses\<close>

text \<open>
  Claim C3. When the recompute has chosen the window from \<open>start\<close> to \<open>end\<close> over
  \<open>pageCount\<close> pages and ellipses are enabled, the Display Sequence begins with page 1
  and an ellipsis marker before the window if \<open>start > 0\<close>, and ends with an ellipsis
  marker and the last page after the window if \<open>end < pageCount\<close>; both may happen at
  once, and with ellipses disabled the window is published as it is. With 20 pages,
  \<open>maxSize = 5\<close>, rotation, page 10 and ellipses the Display Sequence is
  \<open>[1, ellipsis, 8, 9, 10, 11, 12, ellipsis, 20]\<close>.
\<close>

theorem displaySequence_ellipses:
  "(ngOnChanges this = Some this'
      \<and> pageCount this' = Fin n \<and> 0 < maxSize this \<and> maxSize this < n
      \<and> (if rotate_flag this then applyRotation n (page this') (maxSize this)
          else applyPagination (page this') (maxSize this)) = (start, end) \<longrightarrow>
    pages this' =
      (if ellipses this
       then (if 0 < start then [1, -1] else []) @ js_slice [1..n] start end
            @ (if end < n then [-1, n] else [])
       else js_slice [1..n] start end))
   \<and> applyEllipses el k w s e =
        (if el then (if 0 < s then [1, -1] else []) @ w @ (if e < k then [-1, k] else [])
         else w)
   \<and> isEllipsis (-1)
   \<and> map_option pages
        (ngOnChanges \<lparr>pageCount = Fin 0, pages = [], ellipses = True, rotate_flag = True,
           collectionSize = 200, maxSize = 5, page = 10, pageSize = 10, pageChange = []\<rparr>)
      = Some [1, -1, 8, 9, 10, 11, 12, -1, 20]"
proof -
  have recompute: "pages this' =
      (if ellipses this
       then (if 0 < start then [1, -1] else []) @ js_slice [1..n] start end
            @ (if end < n then [-1, n] else [])
       else js_slice [1..n] start end)"
    if run: "ngOnChanges this = Some this'"
      and n: "pageCount this' = Fin n"
      and m: "0 < maxSize this" "maxSize this < n"
      and window: "(if rotate_flag this then applyRotation n (page this') (maxSize this)
          else applyPagination (page this') (maxSize this)) = (start, end)"
  proof -
    from ngOnChanges_finite [OF run n] have this': "this' = recomputed this n" by simp
    have "page (recomputed this n) = getValueInRange (page this) (Fin n) 1"
      by (simp add: recomputed_def applyMaxSize_def Let_def split: prod.split)
    with this' have p: "page this' = getValueInRange (page this) (Fin n) 1" by simp
    from window have "(if rotate_flag this
          then applyRotation n (getValueInRange (page this) (Fin n) 1) (maxSize this)
          else applyPagination (getValueInRange (page this) (Fin n) 1) (maxSize this))
        = (start, end)" by (simp only: p)
    from recomputed_window [OF m this] this'
    have "pages this' = applyEllipses (ellipses this) n (js_slice [1..n] start end) start end"
      by simp
    then show ?thesis by (simp only: applyEllipses_closed)
  qed
  have marker: "isEllipsis (-1)" by (simp add: isEllipsis_def)
  have window: "applyRotation 20 10 5 = (7, 12)"
    by (simp add: applyRotation_def js_rem_def)
  have sliced: "js_slice [1..20] 7 12 = [8, 9, 10, 11, 12 :: int]"
    by code_simp
  have example: "map_option pages
        (ngOnChanges \<lparr>pageCount = Fin 0, pages = [], ellipses = True, rotate_flag = True,
           collectionSize = 200, maxSize = 5, page = 10, pageSize = 10, pageChange = []\<rparr>)
      = Some [1, -1, 8, 9, 10, 11, 12, -1, 20]"
    by (simp add: ngOnChanges_nonzero ceil_div_def recomputed_def applyMaxSize_def
        getValueInRange_def window sliced applyEllipses_def)
  from recompute marker example show ?thesis
    by (simp only: applyEllipses_closed) blast
qed

theorem displaySequence_ellipses_witness:
  "map_option pages
     (ngOnChanges \<lparr>pageCount = Fin 0, pages = [], ellipses = True, rotate_flag = False,
        collectionSize = 100, maxSize = 3, page = 4, pageSize = 10, pageChange = []\<rparr>)
   = Some [1, -1, 4, 5, 6, -1, 10]"
proof -
  let ?c = "\<lparr>pageCount = Fin 0, pages = [], ellipses = True, rotate_flag = False,
        collectionSize = 100, maxSize = 3, page = 4, pageSize = 10, pageChange = []\<rparr>"
  let ?c' = "\<lparr>pageCount = Fin 10, pages = [1, -1, 4, 5, 6, -1, 10], ellipses = True,
        rotate_flag = False, collectionSize = 100, maxSize = 3, page = 4, pageSize = 10,
        pageChange = []\<rparr>"
  have window: "applyPagination 4 3 = (3, 6)"
    by (simp add: applyPagination_def ceil_div_def)
  have sliced: "js_slice [1..10] 3 6 = [4, 5, 6 :: int]"
    by code_simp
  have run: "ngOnChanges ?c = Some ?c'"
    by (simp add: ngOnChanges_nonzero ceil_div_def recomputed_def applyMaxSize_def
        getValueInRange_def window sliced applyEllipses_def)
  from displaySequence_ellipses [of ?c ?c' 10 3 6] run window
  have "pages ?c' = [1, -1] @ js_slice [1..10] 3 6 @ [-1, 10]" by simp
  with run sliced show ?thesis by simp
qed

subsection \<open>What the Display Sequence holds\<close>

text \<open>
  Claim C4. Whenever \<open>maxSize > 0\<close> and the page count exceeds \<open>maxSize\<close>, for
  either strategy, the entries of the Display Sequence that are not ellipsis markers
  number at most \<open>maxSize\<close>, plus at most the two boundary page numbers when ellipses
  are enabled: at most \<open>maxSize + 2\<close> in all.
\<close>

theorem displaySequence_size:
  assumes "0 \<le> collectionSize this" and "0 < pageSize this"
    and "0 < maxSize this"
    and "maxSize this < \<lceil>real_of_int (collectionSize this) / real_of_int (pageSize this)\<rceil>"
  shows "\<exists>this'. ngOnChanges this = Some this'
           \<and> int (length (filter (\<lambda>e. \<not> isEllipsis e) (pages this')))
               \<le> maxSize this + (if ellipses this then 2 else 0)
           \<and> int (length (filter (\<lambda>e. \<not> isEllipsis e) (pages this'))) \<le> maxSize this + 2"
proof -
  let ?n = "ceil_div (collectionSize this) (pageSize this)"
  from assms(4) have big: "maxSize this < ?n" by (simp add: ceil_div_ceiling)
  from ngOnChanges_window [OF assms(1,2) refl assms(3) big]
  obtain s e where bounds: "0 \<le> s" "e = s + maxSize this"
    and run: "ngOnChanges this =
               Some (this\<lparr>pageCount := Fin ?n,
                          pages := applyEllipses (ellipses this) ?n [s + 1..min e ?n] s e,
                          page := getValueInRange (page this) (Fin ?n) 1\<rparr>)"
    by blast
  let ?w = "[s + 1..min e ?n]"
  let ?real = "\<lambda>xs. int (length (filter (\<lambda>e. \<not> isEllipsis e) xs))"
  have "?real ?w \<le> int (length ?w)"
    by (simp only: of_nat_le_iff length_filter_le)
  also from bounds assms(3) have "\<dots> \<le> maxSize this" by (simp add: min_def)
  finally have w: "?real ?w \<le> maxSize this" .
  from w applyEllipses_count [of "ellipses this" ?n ?w s e]
  have "?real (applyEllipses (ellipses this) ?n ?w s e)
      \<le> maxSize this + (if ellipses this then 2 else 0)"
    by linarith
  with run show ?thesis by (simp split: if_splits)
qed

theorem displaySequence_size_witness:
  "map_option (\<lambda>this'. length (filter (\<lambda>e. \<not> isEllipsis e) (pages this')) \<le> 7)
     (ngOnChanges \<lparr>pageCount = Fin 0, pages = [], ellipses = True, rotate_flag = True,
        collectionSize = 200, maxSize = 5, page = 10, pageSize = 10, pageChange = []\<rparr>)
   = Some True"
  using displaySequence_size
    [of "\<lparr>pageCount = Fin 0, pages = [], ellipses = True, rotate_flag = True,
        collectionSize = 200, maxSize = 5, page = 10, pageSize = 10, pageChange = []\<rparr>"]
  by auto

text \<open>
  Claim C10. After a recompute with a collection size \<open>\<ge> 0\<close> and a page size
  \<open>> 0\<close>, every entry of the Display Sequence is the ellipsis marker \<open>-1\<close> or a page
  number between 1 and the page count; page numbers are at least 1, so \<open>_isEllipsis\<close>
  holds of an entry exactly when it is not a page number.
\<close>

theorem displaySequence_entries:
  assumes "0 \<le> collectionSize this" and "0 < pageSize this"
  shows "\<exists>this' n. ngOnChanges this = Some this' \<and> pageCount this' = Fin n
           \<and> (\<forall>e \<in> set (pages this').
                 (e = -1 \<or> (1 \<le> e \<and> e \<le> n))
                 \<and> (isEllipsis e \<longleftrightarrow> \<not> (1 \<le> e \<and> e \<le> n)))"
proof -
  let ?n = "ceil_div (collectionSize this) (pageSize this)"
  let ?ok = "\<lambda>e. (e = -1 \<or> (1 \<le> e \<and> e \<le> ?n))
                 \<and> (isEllipsis e \<longleftrightarrow> \<not> (1 \<le> e \<and> e \<le> ?n))"
  show ?thesis
  proof (cases "0 < maxSize this \<and> maxSize this < ?n")
    case False
    from ngOnChanges_plain [OF assms refl False]
    show ?thesis by (auto simp add: isEllipsis_def)
  next
    case True
    then have m: "0 < maxSize this" "maxSize this < ?n" by simp_all
    from ngOnChanges_window [OF assms refl m]
    obtain s e where bounds: "0 \<le> s"
      and run: "ngOnChanges this =
               Some (this\<lparr>pageCount := Fin ?n,
                          pages := applyEllipses (ellipses this) ?n [s + 1..min e ?n] s e,
                          page := getValueInRange (page this) (Fin ?n) 1\<rparr>)"
      by blast
    from bounds have window: "\<forall>x \<in> set [s + 1..min e ?n]. ?ok x"
      by (auto simp add: isEllipsis_def)
    from m have boundary: "?ok 1" "?ok (-1)" "?ok ?n"
      by (simp_all add: isEllipsis_def)
    from window boundary
    have "\<forall>x \<in> set (applyEllipses (ellipses this) ?n [s + 1..min e ?n] s e). ?ok x"
      by (simp only: applyEllipses_closed set_append set_simps split: if_splits) blast
    with run show ?thesis by simp
  qed
qed

theorem displaySequence_entries_witness:
  "map_option (\<lambda>this'. \<forall>e \<in> set (pages this'). e = -1 \<or> (1 \<le> e \<and> e \<le> 20))
     (ngOnChanges \<lparr>pageCount = Fin 0, pages = [], ellipses = True, rotate_flag = True,
        collectionSize = 200, maxSize = 5, page = 10, pageSize = 10, pageChange = []\<rparr>)
   = Some True"
proof -
  let ?c = "\<lparr>pageCount = Fin 0, pages = [], ellipses = True, rotate_flag = True,
        collectionSize = 200, maxSize = 5, page = 10, pageSize = 10, pageChange = []\<rparr>"
  have count: "ngOnChanges ?c = Some this' \<Longrightarrow> pageCount this' = Fin 20" for this'
    by (auto simp add: ngOnChanges_nonzero ceil_div_def recomputed_def applyMaxSize_def
        split: prod.splits)
  from displaySequence_entries [of ?c] count show ?thesis by auto
qed


subsection \<open>Running the recompute again\<close>

lemma recomputed_inputs:
  "collectionSize (recomputed this n) = collectionSize this"
  "pageSize (recomputed this n) = pageSize this"
  by (simp_all add: recomputed_def applyMaxSize_def Let_def split: prod.split)

lemma recomputed_idem: "recomputed (recomputed this n) n = recomputed this n"
  by (simp add: recomputed_def applyMaxSize_def Let_def getValueInRange_idem
      split: prod.split)

text \<open>
  Claim C9. The recompute is idempotent: for a collection size \<open>\<ge> 0\<close> and a page
  size \<open>> 0\<close> it returns, and running it once more on the state it returned gives that
  same state again, with the same Display Sequence and the same current page.
\<close>

theorem ngOnChanges_idempotent:
  assumes "0 \<le> collectionSize this" and "0 < pageSize this"
  shows "\<exists>this'. ngOnChanges this = Some this' \<and> ngOnChanges this' = Some this'"
proof -
  let ?n = "ceil_div (collectionSize this) (pageSize this)"
  from assms have first: "ngOnChanges this = Some (recomputed this ?n)"
    by (simp add: ngOnChanges_nonzero)
  from assms have "ngOnChanges (recomputed this ?n) = Some (recomputed (recomputed this ?n) ?n)"
    by (simp add: ngOnChanges_nonzero recomputed_inputs)
  then have "ngOnChanges (recomputed this ?n) = Some (recomputed this ?n)"
    by (simp only: recomputed_idem)
  with first show ?thesis by simp
qed

theorem ngOnChanges_idempotent_witness:
  "Option.bind
     (ngOnChanges \<lparr>pageCount = Fin 0, pages = [], ellipses = True, rotate_flag = True,
        collectionSize = 200, maxSize = 5, page = 10, pageSize = 10, pageChange = []\<rparr>)
     ngOnChanges
   = ngOnChanges \<lparr>pageCount = Fin 0, pages = [], ellipses = True, rotate_flag = True,
        collectionSize = 200, maxSize = 5, page = 10, pageSize = 10, pageChange = []\<rparr>
   \<and> ngOnChanges \<lparr>pageCount = Fin 0, pages = [], ellipses = True, rotate_flag = True,
        collectionSize = 200, maxSize = 5, page = 10, pageSize = 10, pageChange = []\<rparr>
     \<noteq> None"
  using ngOnChanges_idempotent
    [of "\<lparr>pageCount = Fin 0, pages = [], ellipses = True, rotate_flag = True,
        collectionSize = 200, maxSize = 5, page = 10, pageSize = 10, pageChange = []\<rparr>"]
  by auto


subsection \<open>Selecting a page\<close>








subsection \<open>A page size of zero\<close>

text \<open>
  Claim C1, as amended. The claim as stated fails: the recompute divides by the page size
  without a guard, so with a page size of 0 the page count is never 0.

  With \<open>pageSize = 0\<close> and \<open>collectionSize = 0\<close> the recompute returns with an empty
  Display Sequence and the page count \<open>NaN\<close>; with \<open>pageSize = 0\<close> and
  \<open>collectionSize > 0\<close> the page count is \<open>Infinity\<close> and the recompute does not
  return. The state with page count 0, current page 1 and an empty Display Sequence is
  what the recompute returns for \<open>collectionSize = 0\<close> and a page size \<open>> 0\<close>.
\<close>

theorem ngOnChanges_degenerate:
  "(collectionSize this = 0 \<and> 0 < pageSize this \<longrightarrow>
      (\<exists>this'. ngOnChanges this = Some this' \<and> pageCount this' = Fin 0
         \<and> page this' = 1 \<and> pages this' = []))
   \<and> (collectionSize this = 0 \<and> pageSize this = 0 \<longrightarrow>
      (\<exists>this'. ngOnChanges this = Some this' \<and> pageCount this' = NaN \<and> pages this' = []))
   \<and> (0 < collectionSize this \<and> pageSize this = 0 \<longrightarrow> ngOnChanges this = None)"
proof -
  have empty: "\<exists>this'. ngOnChanges this = Some this' \<and> pageCount this' = Fin 0
         \<and> page this' = 1 \<and> pages this' = []"
    if "collectionSize this = 0 \<and> 0 < pageSize this"
  proof -
    from that have "ceil_div (collectionSize this) (pageSize this) = 0"
      by (simp add: ceil_div_def)
    with that have "ngOnChanges this = Some (recomputed this 0)"
      by (simp add: ngOnChanges_nonzero)
    moreover have "recomputed this 0 = this\<lparr>pageCount := Fin 0, pages := [1..0],
        page := getValueInRange (page this) (Fin 0) 1\<rparr>"
      by (rule recomputed_plain) simp
    ultimately show ?thesis
      by (simp add: getValueInRange_def)
  qed
  have nan: "\<exists>this'. ngOnChanges this = Some this' \<and> pageCount this' = NaN \<and> pages this' = []"
    if "collectionSize this = 0 \<and> pageSize this = 0"
    using that by (simp add: ngOnChanges_def js_ceil_div_def fill_pages_NaN Let_def)
  have inf: "ngOnChanges this = None"
    if "0 < collectionSize this \<and> pageSize this = 0"
    using that by (simp add: ngOnChanges_def js_ceil_div_def fill_pages_PosInf)
  from empty nan inf show ?thesis by blast
qed

theorem ngOnChanges_degenerate_witness:
  "map_option (\<lambda>this'. (pageCount this', page this', pages this'))
     (ngOnChanges \<lparr>pageCount = Fin 3, pages = [1, 2, 3], ellipses = True,
        rotate_flag = False, collectionSize = 0, maxSize = 0, page = 3, pageSize = 10,
        pageChange = []\<rparr>) = Some (Fin 0, 1, [])
   \<and> map_option (\<lambda>this'. (pageCount this', pages this'))
     (ngOnChanges \<lparr>pageCount = Fin 3, pages = [1, 2, 3], ellipses = True,
        rotate_flag = False, collectionSize = 0, maxSize = 0, page = 3, pageSize = 0,
        pageChange = []\<rparr>) = Some (NaN, [])
   \<and> ngOnChanges \<lparr>pageCount = Fin 3, pages = [1, 2, 3], ellipses = True,
        rotate_flag = False, collectionSize = 25, maxSize = 0, page = 3, pageSize = 0,
        pageChange = []\<rparr> = None"
  using
    ngOnChanges_degenerate [of "\<lparr>pageCount = Fin 3, pages = [1, 2, 3], ellipses = True,
        rotate_flag = False, collectionSize = 0, maxSize = 0, page = 3, pageSize = 10,
        pageChange = []\<rparr>"]
    ngOnChanges_degenerate [of "\<lparr>pageCount = Fin 3, pages = [1, 2, 3], ellipses = True,
        rotate_flag = False, collectionSize = 0, maxSize = 0, page = 3, pageSize = 0,
        pageChange = []\<rparr>"]
    ngOnChanges_degenerate [of "\<lparr>pageCount = Fin 3, pages = [1, 2, 3], ellipses = True,
        rotate_flag = False, collectionSize = 25, maxSize = 0, page = 3, pageSize = 0,
        pageChange = []\<rparr>"]
  by auto

theorem ngOnChanges_pageSize_zero_counterexample:
  "ngOnChanges \<lparr>pageCount = Fin 0, pages = [], ellipses = True, rotate_flag = False,
        collectionSize = 1, maxSize = 0, page = 0, pageSize = 0, pageChange = []\<rparr> = None"
  by (simp add: ngOnChanges_def js_ceil_div_def fill_pages_PosInf)

end
